theory Spec2Isabelle
  imports Main "HOL-Library.Word"
begin

unbundle bit_operations_syntax

section \<open>Response cache plugin: cache keys and the session-aware read and write paths\<close>

text \<open>
  A shallow embedding of \<^verbatim>\<open>ApolloServerPluginResponseCache.ts\<close>. Strings are byte
  strings (the UTF-8 encoding of a well-formed JavaScript string), JavaScript values that
  reach \<^verbatim>\<open>JSON.stringify\<close> are JSON-representable values, and numbers are integers of
  magnitude below \<open>10\<^sup>2\<^sup>1\<close>.
\<close>

subsection \<open>JSON values and \<^verbatim>\<open>JSON.stringify\<close>\<close>

text \<open>
  An object is the list of its own enumerable properties in enumeration order
  (insertion order for the names used here), which is the order \<^verbatim>\<open>JSON.stringify\<close>
  writes them in. \<open>JNull\<close> is JavaScript's \<^verbatim>\<open>null\<close>.
\<close>

datatype json =
    JNull
  | JBool bool
  | JNum int
  | JStr string
  | JArr "json list"
  | JObj "(string \<times> json) list"

definition hexdigit :: "nat \<Rightarrow> char" where
  "hexdigit n = ''0123456789abcdef'' ! (n mod 16)"

fun decimal :: "nat \<Rightarrow> string" where
  "decimal n = (if n < 10 then [hexdigit n] else decimal (n div 10) @ [hexdigit (n mod 10)])"

text \<open>
  Number::toString on the numbers of this model: integers that are Number values of
  magnitude below \<open>10\<^sup>2\<^sup>1\<close>, which JavaScript prints with all their decimal digits.
  Larger numbers (printed in exponent form) and fractions are outside the model.
\<close>

definition NumberToString :: "int \<Rightarrow> string" where
  "NumberToString i = (if i < 0 then CHR ''-'' # decimal (nat (- i)) else decimal (nat i))"

text \<open>
  ECMA-262 QuoteJSONString: the double quote and the backslash are escaped with a
  backslash, the control characters below U+0020 by their short form or by
  \<^verbatim>\<open>\u00xx\<close> in lower-case hexadecimal, every other byte is copied.
\<close>

definition QuoteJSONChar :: "char \<Rightarrow> string" where
  "QuoteJSONChar c =
     (if c = CHR 0x08 then [CHR 0x5C, CHR ''b'']
      else if c = CHR 0x09 then [CHR 0x5C, CHR ''t'']
      else if c = CHR 0x0A then [CHR 0x5C, CHR ''n'']
      else if c = CHR 0x0C then [CHR 0x5C, CHR ''f'']
      else if c = CHR 0x0D then [CHR 0x5C, CHR ''r'']
      else if c = CHR 0x22 then [CHR 0x5C, CHR 0x22]
      else if c = CHR 0x5C then [CHR 0x5C, CHR 0x5C]
      else if (of_char c :: nat) < 0x20
        then [CHR 0x5C, CHR ''u'', CHR ''0'', CHR ''0'',
              hexdigit (of_char c div 16), hexdigit (of_char c mod 16)]
      else [c])"

definition QuoteJSONString :: "string \<Rightarrow> string" where
  "QuoteJSONString s = CHR 0x22 # concat (map QuoteJSONChar s) @ [CHR 0x22]"

fun join :: "string \<Rightarrow> string list \<Rightarrow> string" where
  "join sep [] = []"
| "join sep [x] = x"
| "join sep (x # y # ys) = x @ sep @ join sep (y # ys)"

fun JSON_stringify :: "json \<Rightarrow> string" where
  "JSON_stringify JNull = ''null''"
| "JSON_stringify (JBool b) = (if b then ''true'' else ''false'')"
| "JSON_stringify (JNum i) = NumberToString i"
| "JSON_stringify (JStr s) = QuoteJSONString s"
| "JSON_stringify (JArr vs) = ''['' @ join '','' (map JSON_stringify vs) @ '']''"
| "JSON_stringify (JObj ps) =
     ''{'' @ join '','' (map (\<lambda>(k, v). QuoteJSONString k @ '':'' @ JSON_stringify v) ps) @ ''}''"

subsection \<open>SHA-256 (FIPS 180-4), as \<^verbatim>\<open>createHash('sha256').update(s).digest('hex')\<close> computes it\<close>

type_synonym word32 = "32 word"

definition rotr :: "nat \<Rightarrow> word32 \<Rightarrow> word32" where
  "rotr n w = drop_bit n w OR push_bit (32 - n) w"

definition Ch :: "word32 \<Rightarrow> word32 \<Rightarrow> word32 \<Rightarrow> word32" where
  "Ch x y z = (x AND y) XOR (NOT x AND z)"

definition Maj :: "word32 \<Rightarrow> word32 \<Rightarrow> word32 \<Rightarrow> word32" where
  "Maj x y z = (x AND y) XOR (x AND z) XOR (y AND z)"

definition Sigma0 :: "word32 \<Rightarrow> word32" where
  "Sigma0 x = rotr 2 x XOR rotr 13 x XOR rotr 22 x"

definition Sigma1 :: "word32 \<Rightarrow> word32" where
  "Sigma1 x = rotr 6 x XOR rotr 11 x XOR rotr 25 x"

definition sigma0 :: "word32 \<Rightarrow> word32" where
  "sigma0 x = rotr 7 x XOR rotr 18 x XOR drop_bit 3 x"

definition sigma1 :: "word32 \<Rightarrow> word32" where
  "sigma1 x = rotr 17 x XOR rotr 19 x XOR drop_bit 10 x"

text \<open>The sixty-four round constants, four to a row.\<close>

definition K256 :: "word32 list" where
  "K256 =
     [0x428a2f98, 0x71374491, 0xb5c0fbcf, 0xe9b5dba5]
     @ [0x3956c25b, 0x59f111f1, 0x923f82a4, 0xab1c5ed5]
     @ [0xd807aa98, 0x12835b01, 0x243185be, 0x550c7dc3]
     @ [0x72be5d74, 0x80deb1fe, 0x9bdc06a7, 0xc19bf174]
     @ [0xe49b69c1, 0xefbe4786, 0x0fc19dc6, 0x240ca1cc]
     @ [0x2de92c6f, 0x4a7484aa, 0x5cb0a9dc, 0x76f988da]
     @ [0x983e5152, 0xa831c66d, 0xb00327c8, 0xbf597fc7]
     @ [0xc6e00bf3, 0xd5a79147, 0x06ca6351, 0x14292967]
     @ [0x27b70a85, 0x2e1b2138, 0x4d2c6dfc, 0x53380d13]
     @ [0x650a7354, 0x766a0abb, 0x81c2c92e, 0x92722c85]
     @ [0xa2bfe8a1, 0xa81a664b, 0xc24b8b70, 0xc76c51a3]
     @ [0xd192e819, 0xd6990624, 0xf40e3585, 0x106aa070]
     @ [0x19a4c116, 0x1e376c08, 0x2748774c, 0x34b0bcb5]
     @ [0x391c0cb3, 0x4ed8aa4a, 0x5b9cca4f, 0x682e6ff3]
     @ [0x748f82ee, 0x78a5636f, 0x84c87814, 0x8cc70208]
     @ [0x90befffa, 0xa4506ceb, 0xbef9a3f7, 0xc67178f2]"

type_synonym sha_state =
  "word32 \<times> word32 \<times> word32 \<times> word32 \<times> word32 \<times> word32 \<times> word32 \<times> word32"

definition H256 :: sha_state where
  "H256 = (0x6a09e667, 0xbb67ae85, 0x3c6ef372, 0xa54ff53a,
           0x510e527f, 0x9b05688c, 0x1f83d9ab, 0x5be0cd19)"

fun sha_round :: "word32 \<times> word32 \<Rightarrow> sha_state \<Rightarrow> sha_state" where
  "sha_round (k, w) (a, b, c, d, e, f, g, h) =
     (let t1 = h + Sigma1 e + Ch e f g + k + w;
          t2 = Sigma0 a + Maj a b c
      in (t1 + t2, a, b, c, d + t1, e, f, g))"

text \<open>The message schedule: sixteen words of the block, extended one word at a time.\<close>

fun schedule :: "nat \<Rightarrow> word32 list \<Rightarrow> word32 list" where
  "schedule 0 ws = ws"
| "schedule (Suc n) ws =
     (let t = length ws
      in schedule n
           (ws @ [sigma1 (ws ! (t - 2)) + ws ! (t - 7) + sigma0 (ws ! (t - 15)) + ws ! (t - 16)]))"

fun sha_add :: "sha_state \<Rightarrow> sha_state \<Rightarrow> sha_state" where
  "sha_add (a, b, c, d, e, f, g, h) (a', b', c', d', e', f', g', h') =
     (a + a', b + b', c + c', d + d', e + e', f + f', g + g', h + h')"

definition compress :: "word32 list \<Rightarrow> sha_state \<Rightarrow> sha_state" where
  "compress block st = sha_add st (fold sha_round (zip K256 (schedule 48 block)) st)"

fun be_words :: "8 word list \<Rightarrow> word32 list" where
  "be_words (b0 # b1 # b2 # b3 # bs) =
     (push_bit 24 (ucast b0) OR push_bit 16 (ucast b1) OR push_bit 8 (ucast b2) OR ucast b3)
       # be_words bs"
| "be_words _ = []"

fun chunks :: "nat \<Rightarrow> 'a list \<Rightarrow> 'a list list" where
  "chunks 0 ws = []"
| "chunks (Suc n) ws = take 16 ws # chunks n (drop 16 ws)"

definition sha_pad :: "8 word list \<Rightarrow> 8 word list" where
  "sha_pad m =
     (let l = length m;
          z = (119 - l mod 64) mod 64;
          bits = (word_of_nat (8 * l) :: 64 word)
      in m @ [0x80] @ replicate z 0 @ map (\<lambda>i. ucast (drop_bit (8 * (7 - i)) bits)) [0..<8])"

definition hex32 :: "word32 \<Rightarrow> string" where
  "hex32 w = map (\<lambda>i. hexdigit (unat (drop_bit (4 * (7 - i)) w AND 0xF))) [0..<8]"

fun sha_hex :: "sha_state \<Rightarrow> string" where
  "sha_hex (a, b, c, d, e, f, g, h) = concat (map hex32 [a, b, c, d, e, f, g, h])"

text \<open>\<^verbatim>\<open>function sha(s: string)\<close>: the lower-case hexadecimal SHA-256 digest of the bytes of \<open>s\<close>.\<close>

definition sha :: "string \<Rightarrow> string" where
  "sha s =
     (let ws = be_words (sha_pad (map of_char s))
      in sha_hex (fold compress (chunks (length ws div 16) ws) H256))"

subsection \<open>Cache keys\<close>

datatype SessionMode = NoSession | Private | AuthenticatedPublic

text \<open>A TypeScript numeric enum: the members are numbered from zero in declaration order.\<close>

fun SessionMode_value :: "SessionMode \<Rightarrow> int" where
  "SessionMode_value NoSession = 0"
| "SessionMode_value Private = 1"
| "SessionMode_value AuthenticatedPublic = 2"

record BaseCacheKey =
  documentText :: string
  operationName :: "string option"
  variables :: "(string \<times> json) list"
  extra :: json

text \<open>
  \<^verbatim>\<open>sessionId?: string | null\<close>: \<open>None\<close> is an absent property, \<open>Some None\<close> is
  \<^verbatim>\<open>null\<close>.
\<close>

record ContextualCacheKey =
  sessionMode :: SessionMode
  sessionId :: "string option option"

type_synonym CacheKey = "BaseCacheKey \<times> ContextualCacheKey"

definition json_of_nullable :: "string option \<Rightarrow> json" where
  "json_of_nullable s = (case s of None \<Rightarrow> JNull | Some x \<Rightarrow> JStr x)"

text \<open>
  The object \<^verbatim>\<open>{ ...baseCacheKey, ...contextualCacheKeyFields }\<close>: the properties of the
  base key in the order of its literal, then those of the contextual key, where both
  literals with a \<^verbatim>\<open>sessionId\<close> write it before \<^verbatim>\<open>sessionMode\<close>.
\<close>

definition CacheKey_object :: "CacheKey \<Rightarrow> json" where
  "CacheKey_object key =
     (case key of (b, c) \<Rightarrow>
        JObj ([(''documentText'', JStr (documentText b)),
               (''operationName'', json_of_nullable (operationName b)),
               (''variables'', JObj (variables b)),
               (''extra'', extra b)]
              @ (case sessionId c of None \<Rightarrow> [] | Some v \<Rightarrow> [(''sessionId'', json_of_nullable v)])
              @ [(''sessionMode'', JNum (SessionMode_value (sessionMode c)))]))"

definition cacheKeyString :: "CacheKey \<Rightarrow> string" where
  "cacheKeyString key = sha (JSON_stringify (CacheKey_object key))"

subsection \<open>Values, promises and failures\<close>

datatype error = Error string | TypeError string | Thrown string

text \<open>
  \<^verbatim>\<open>ValueOrPromise<T>\<close>: a plain value, or a promise that is settled when it is awaited:
  \<open>Promise (Inr v)\<close> resolves to \<open>v\<close>, \<open>Promise (Inl e)\<close> rejects with \<open>e\<close>.
\<close>

datatype 'a ValueOrPromise = Value 'a | Promise "error + 'a"

fun await :: "'a ValueOrPromise \<Rightarrow> error + 'a" where
  "await (Value v) = Inr v"
| "await (Promise r) = r"

text \<open>The operator \<^verbatim>\<open>!\<close> on a boolean or a promise: every object, so every promise, is truthy.\<close>

fun js_not :: "bool ValueOrPromise \<Rightarrow> bool" where
  "js_not (Value b) = (\<not> b)"
| "js_not (Promise r) = False"

fun js_truthy :: "json \<Rightarrow> bool" where
  "js_truthy JNull = False"
| "js_truthy (JBool b) = b"
| "js_truthy (JNum i) = (i \<noteq> 0)"
| "js_truthy (JStr s) = (s \<noteq> [])"
| "js_truthy (JArr vs) = True"
| "js_truthy (JObj ps) = True"

subsection \<open>The request context, the options and the store\<close>

datatype OperationType = query | mutation | subscription

text \<open>
  Modelled from the spec: the enumeration \<^verbatim>\<open>CacheScope\<close> and the type of
  \<^verbatim>\<open>overallCachePolicy\<close> are imported by the plugin and declared in none of the source
  files; the spec gives \<^verbatim>\<open>{ scope: enum{Public, Private}, maxAge: integer seconds }\<close>.
\<close>

datatype CacheScope = PUBLIC | PRIVATE

record CachePolicy =
  maxAge :: int
  scope :: CacheScope

text \<open>\<^verbatim>\<open>GraphQLResponse\<close>: every property is optional, \<open>None\<close> is \<^verbatim>\<open>undefined\<close>.\<close>

record GraphQLResponse =
  data :: "json option"
  errors :: "json list option"
  extensions :: "json option"
  http :: "(string \<times> string) list option"

text \<open>
  A key-value store as this plugin sees it: what \<^verbatim>\<open>get\<close> answers for a key (a failure, an
  absent key as \<open>None\<close>, or the stored string) and whether \<^verbatim>\<open>set\<close> fails.
\<close>

record KeyValueCache =
  kv_get :: "string \<Rightarrow> error + string option"
  kv_set :: "string \<Rightarrow> string \<Rightarrow> int \<Rightarrow> error option"

text \<open>The parts of \<^verbatim>\<open>GraphQLRequestContext\<close> that the plugin reads.\<close>

record GraphQLRequestContext =
  request_variables :: "(string \<times> json) list option"
  ctx_documentText :: string
  ctx_operationName :: "string option"
  operation :: "OperationType option"
  ctx_response :: GraphQLResponse
  overallCachePolicy :: "CachePolicy option"
  ctx_cache :: KeyValueCache

text \<open>
  A hook is called with the request context; the call throws (\<open>Inl\<close>) or returns a value
  or a promise. \<open>None\<close> is a hook that is not configured.
\<close>

type_synonym 'a hook = "(GraphQLRequestContext \<Rightarrow> error + 'a ValueOrPromise) option"

record Options =
  opt_cache :: "KeyValueCache option"
  opt_sessionId :: "string option hook"
  opt_extraCacheKeyData :: "json hook"
  opt_shouldReadFromCache :: "bool hook"
  opt_shouldWriteToCache :: "bool hook"

text \<open>
  Modelled from the spec: \<^verbatim>\<open>PrefixingKeyValueCache\<close> belongs to the package
  apollo-server-caching, which is not among the source files; the spec says that the keys
  are namespaced under a fixed prefix.
\<close>

definition PrefixingKeyValueCache :: "KeyValueCache \<Rightarrow> string \<Rightarrow> KeyValueCache" where
  "PrefixingKeyValueCache wrapped prefix =
     \<lparr>kv_get = (\<lambda>key. kv_get wrapped (prefix @ key)),
      kv_set = (\<lambda>key. kv_set wrapped (prefix @ key))\<rparr>"

text \<open>
  The cache of the plugin,
  \<^verbatim>\<open>new PrefixingKeyValueCache(options.cache || outerRequestContext.cache!, 'fqc:')\<close>.
\<close>

definition plugin_cache :: "Options \<Rightarrow> GraphQLRequestContext \<Rightarrow> KeyValueCache" where
  "plugin_cache options outerRequestContext =
     PrefixingKeyValueCache
       (case opt_cache options of Some c \<Rightarrow> c | None \<Rightarrow> ctx_cache outerRequestContext)
       ''fqc:''"

text \<open>
  What the request does to the world, in order: the calls of \<^verbatim>\<open>cache.get\<close> and
  \<^verbatim>\<open>cache.set\<close> on the cache of the plugin, with their arguments, and the diagnostics.
\<close>

datatype Effect =
    StoreGet string
  | StoreSet string string int
  | ConsoleWarn string
  | ConsoleWarnError error

text \<open>The variables \<^verbatim>\<open>sessionId\<close> and \<^verbatim>\<open>baseCacheKey\<close> of one \<^verbatim>\<open>requestDidStart\<close> closure.\<close>

record RequestState =
  st_sessionId :: "string option"
  st_baseCacheKey :: "BaseCacheKey option"

definition initial_state :: RequestState where
  "initial_state = \<lparr>st_sessionId = None, st_baseCacheKey = None\<rparr>"

subsection \<open>The plugin\<close>

text \<open>
  \<^verbatim>\<open>requestContext.operation!.operation === 'query'\<close>: reading a property of an undefined
  operation throws a TypeError.
\<close>

definition isGraphQLQuery :: "GraphQLRequestContext \<Rightarrow> error + bool" where
  "isGraphQLQuery requestContext =
     (case operation requestContext of
        None \<Rightarrow> Inl (TypeError ''Cannot read property operation of undefined'')
      | Some t \<Rightarrow> Inr (t = query))"

text \<open>
  \<^verbatim>\<open>cacheGet\<close>, with the base key that \<^verbatim>\<open>baseCacheKey!\<close> reads passed by the caller.
  \<^verbatim>\<open>JSON.parse\<close> is a parameter. The answer \<open>JNull\<close> is \<^verbatim>\<open>null\<close>.
\<close>

definition cacheGet ::
  "(string \<Rightarrow> error + json) \<Rightarrow> KeyValueCache \<Rightarrow> BaseCacheKey \<Rightarrow> ContextualCacheKey
     \<Rightarrow> (error + json) \<times> Effect list" where
  "cacheGet JSON_parse cache baseCacheKey contextualCacheKeyFields =
     (let key = cacheKeyString (baseCacheKey, contextualCacheKeyFields)
      in ((case kv_get cache key of
             Inl e \<Rightarrow> Inl e
           | Inr None \<Rightarrow> Inr JNull
           | Inr (Some v) \<Rightarrow> JSON_parse v),
          [StoreGet key]))"

text \<open>
  \<^verbatim>\<open>cacheSetInBackground\<close>: key and value are strings before the store is called; a
  failure of the write is passed to \<^verbatim>\<open>console.warn\<close>.
\<close>

definition cacheSetInBackground ::
  "KeyValueCache \<Rightarrow> BaseCacheKey \<Rightarrow> ContextualCacheKey \<Rightarrow> json \<Rightarrow> int \<Rightarrow> Effect list" where
  "cacheSetInBackground cache baseCacheKey contextualCacheKeyFields response ttlSeconds =
     (let key = cacheKeyString (baseCacheKey, contextualCacheKeyFields);
          v = JSON_stringify response
      in StoreSet key v ttlSeconds
         # (case kv_set cache key v ttlSeconds of
              None \<Rightarrow> []
            | Some e \<Rightarrow> [ConsoleWarnError e]))"

text \<open>\<^verbatim>\<open>sessionId = await options.sessionId(requestContext)\<close>, when the hook is configured.\<close>

definition resolve_sessionId ::
  "Options \<Rightarrow> GraphQLRequestContext \<Rightarrow> RequestState \<Rightarrow> error + RequestState" where
  "resolve_sessionId options requestContext st =
     (case opt_sessionId options of
        None \<Rightarrow> Inr st
      | Some h \<Rightarrow>
          (case h requestContext of
             Inl e \<Rightarrow> Inl e
           | Inr p \<Rightarrow>
               (case await p of
                  Inl e \<Rightarrow> Inl e
                | Inr v \<Rightarrow> Inr (st\<lparr>st_sessionId := v\<rparr>))))"

text \<open>\<^verbatim>\<open>extraCacheKeyData = await options.extraCacheKeyData(requestContext)\<close>, initially null.\<close>

definition resolve_extraCacheKeyData :: "Options \<Rightarrow> GraphQLRequestContext \<Rightarrow> error + json" where
  "resolve_extraCacheKeyData options requestContext =
     (case opt_extraCacheKeyData options of
        None \<Rightarrow> Inr JNull
      | Some h \<Rightarrow>
          (case h requestContext of
             Inl e \<Rightarrow> Inl e
           | Inr p \<Rightarrow> await p))"

text \<open>
  \<^verbatim>\<open>options.hook && !options.hook(requestContext)\<close>, the test of both predicates: the
  result of the call is negated as it is returned, without \<^verbatim>\<open>await\<close>.
\<close>

definition hook_refuses :: "bool hook \<Rightarrow> GraphQLRequestContext \<Rightarrow> error + bool" where
  "hook_refuses hook requestContext =
     (case hook of
        None \<Rightarrow> Inr False
      | Some h \<Rightarrow>
          (case h requestContext of
             Inl e \<Rightarrow> Inl e
           | Inr r \<Rightarrow> Inr (js_not r)))"

text \<open>The object literal assigned to \<^verbatim>\<open>baseCacheKey\<close>.\<close>

definition make_baseCacheKey :: "GraphQLRequestContext \<Rightarrow> json \<Rightarrow> BaseCacheKey" where
  "make_baseCacheKey requestContext extraCacheKeyData =
     \<lparr>documentText = ctx_documentText requestContext,
      operationName = ctx_operationName requestContext,
      variables = (case request_variables requestContext of None \<Rightarrow> [] | Some vs \<Rightarrow> vs),
      extra = extraCacheKeyData\<rparr>"

text \<open>The reads of the store, once session id and base key are set.\<close>

definition lookup ::
  "(string \<Rightarrow> error + json) \<Rightarrow> KeyValueCache \<Rightarrow> BaseCacheKey \<Rightarrow> string option
     \<Rightarrow> (error + json) \<times> Effect list" where
  "lookup JSON_parse cache baseCacheKey sid =
     (case sid of
        None \<Rightarrow>
          cacheGet JSON_parse cache baseCacheKey \<lparr>sessionMode = NoSession, sessionId = None\<rparr>
      | Some s \<Rightarrow>
          (case cacheGet JSON_parse cache baseCacheKey
                  \<lparr>sessionMode = Private, sessionId = Some (Some s)\<rparr> of
             (Inl e, fx) \<Rightarrow> (Inl e, fx)
           | (Inr privateResponse, fx) \<Rightarrow>
               if privateResponse \<noteq> JNull then (Inr privateResponse, fx)
               else (case cacheGet JSON_parse cache baseCacheKey
                            \<lparr>sessionMode = AuthenticatedPublic, sessionId = None\<rparr> of
                       (r, fx') \<Rightarrow> (r, fx @ fx'))))"

text \<open>
  \<^verbatim>\<open>executor\<close>: the result (\<open>Inl\<close> a rejection, \<open>Inr JNull\<close> for \<^verbatim>\<open>null\<close>), the state of the
  closure afterwards, and the effects.
\<close>

definition executor ::
  "(string \<Rightarrow> error + json) \<Rightarrow> Options \<Rightarrow> GraphQLRequestContext \<Rightarrow> RequestState
     \<Rightarrow> (error + json) \<times> RequestState \<times> Effect list" where
  "executor JSON_parse options requestContext st =
     (case isGraphQLQuery requestContext of
        Inl e \<Rightarrow> (Inl e, st, [])
      | Inr False \<Rightarrow> (Inr JNull, st, [])
      | Inr True \<Rightarrow>
          (case resolve_sessionId options requestContext st of
             Inl e \<Rightarrow> (Inl e, st, [])
           | Inr st1 \<Rightarrow>
               (case resolve_extraCacheKeyData options requestContext of
                  Inl e \<Rightarrow> (Inl e, st1, [])
                | Inr extraCacheKeyData \<Rightarrow>
                    (let base = make_baseCacheKey requestContext extraCacheKeyData;
                         st2 = st1\<lparr>st_baseCacheKey := Some base\<rparr>
                     in case hook_refuses (opt_shouldReadFromCache options) requestContext of
                          Inl e \<Rightarrow> (Inl e, st2, [])
                        | Inr True \<Rightarrow> (Inr JNull, st2, [])
                        | Inr False \<Rightarrow>
                            (case lookup JSON_parse (plugin_cache options requestContext)
                                    base (st_sessionId st2) of
                               (r, fx) \<Rightarrow> (r, st2, fx))))))"

definition private_without_hook_warning :: string where
  "private_without_hook_warning =
     ''A GraphQL response used @cacheControl or setCacheHint to set cache hints with scope ''
     @ ''Private, but you didn't define the sessionId hook for ''
     @ ''apollo-server-plugin-response-cache. Not caching.''"

text \<open>The test that ends \<^verbatim>\<open>willSendResponse\<close> before anything is written.\<close>

definition not_cacheable :: "GraphQLResponse \<Rightarrow> CachePolicy option \<Rightarrow> bool" where
  "not_cacheable resp policy =
     (errors resp \<noteq> None
      \<or> (case data resp of None \<Rightarrow> True | Some d \<Rightarrow> \<not> js_truthy d)
      \<or> (case policy of None \<Rightarrow> True | Some p \<Rightarrow> maxAge p \<le> 0))"

text \<open>\<^verbatim>\<open>willSendResponse\<close>: it returns or throws, and the effects.\<close>

definition willSendResponse ::
  "Options \<Rightarrow> GraphQLRequestContext \<Rightarrow> RequestState \<Rightarrow> (error + unit) \<times> Effect list" where
  "willSendResponse options requestContext st =
     (case isGraphQLQuery requestContext of
        Inl e \<Rightarrow> (Inl e, [])
      | Inr False \<Rightarrow> (Inr (), [])
      | Inr True \<Rightarrow>
          (case hook_refuses (opt_shouldWriteToCache options) requestContext of
             Inl e \<Rightarrow> (Inl e, [])
           | Inr True \<Rightarrow> (Inr (), [])
           | Inr False \<Rightarrow>
               (if not_cacheable (ctx_response requestContext) (overallCachePolicy requestContext)
                then (Inr (), [])
                else
                  (case (data (ctx_response requestContext), overallCachePolicy requestContext) of
                     (Some d, Some policy) \<Rightarrow>
                       (let executionResult = JObj [(''data'', d)];
                            cache = plugin_cache options requestContext
                        in case st_baseCacheKey st of
                             None \<Rightarrow>
                               (Inl (Error ''willSendResponse called without error, but execute not called?''),
                                [])
                           | Some base \<Rightarrow>
                               if scope policy = PRIVATE then
                                 (if opt_sessionId options = None
                                  then (Inr (), [ConsoleWarn private_without_hook_warning])
                                  else
                                    (case st_sessionId st of
                                       None \<Rightarrow> (Inr (), [])
                                     | Some s \<Rightarrow>
                                         (Inr (),
                                          cacheSetInBackground cache base
                                            \<lparr>sessionMode = Private, sessionId = Some (Some s)\<rparr>
                                            executionResult (maxAge policy))))
                               else
                                 (Inr (),
                                  cacheSetInBackground cache base
                                    \<lparr>sessionMode =
                                       (if st_sessionId st = None then NoSession
                                        else AuthenticatedPublic),
                                     sessionId = None\<rparr>
                                    executionResult (maxAge policy)))
                   | _ \<Rightarrow> (Inr (), [])))))"

subsection \<open>Objects on the heap: the variables of the request\<close>

text \<open>
  The object \<^verbatim>\<open>requestContext.request.variables\<close> is shared with the rest of the server and
  can be changed in place, so here objects live on a heap: an address is an index into the
  list of allocated objects, and a property holds a primitive value or an address.
\<close>

type_synonym addr = nat

datatype jsvalue = VNull | VBool bool | VNum int | VStr string | VRef addr

datatype jsobject = Object "(string \<times> jsvalue) list" | Array "jsvalue list"

type_synonym heap = "jsobject list"

fun children :: "jsobject \<Rightarrow> jsvalue list" where
  "children (Object ps) = map snd ps"
| "children (Array vs) = vs"

text \<open>The own enumerable properties that an object spread copies; those of an array are its indices.\<close>

fun own_properties :: "jsobject \<Rightarrow> (string \<times> jsvalue) list" where
  "own_properties (Object ps) = ps"
| "own_properties (Array vs) = zip (map decimal [0..<length vs]) vs"

text \<open>
  The JSON value that \<^verbatim>\<open>JSON.stringify\<close> reads from a value when the heap is \<open>h\<close>, following
  addresses to the depth \<open>n\<close>: \<open>None\<close> when an object lies deeper (as in a cycle, where
  \<^verbatim>\<open>JSON.stringify\<close> throws) or an address is not allocated.
\<close>

fun reify :: "nat \<Rightarrow> heap \<Rightarrow> jsvalue \<Rightarrow> json option" where
  "reify n h VNull = Some JNull"
| "reify n h (VBool b) = Some (JBool b)"
| "reify n h (VNum i) = Some (JNum i)"
| "reify n h (VStr s) = Some (JStr s)"
| "reify 0 h (VRef a) = None"
| "reify (Suc n) h (VRef a) =
     (if a < length h then
        (case h ! a of
           Object ps \<Rightarrow>
             map_option JObj (those (map (\<lambda>(k, v). map_option (Pair k) (reify n h v)) ps))
         | Array vs \<Rightarrow> map_option JArr (those (map (reify n h) vs)))
      else None)"

text \<open>The addresses that this reading follows.\<close>

fun refs_of :: "nat \<Rightarrow> heap \<Rightarrow> jsvalue \<Rightarrow> addr list" where
  "refs_of (Suc n) h (VRef a) =
     a # (if a < length h then concat (map (refs_of n h) (children (h ! a))) else [])"
| "refs_of n h v = []"

text \<open>
  \<^verbatim>\<open>{ ...(requestContext.request.variables || {}) }\<close>: a new object with the own properties
  of the variables object, or with none when the request has no variables. The properties
  are copied as they are, so an object nested in the variables is shared with the copy.
\<close>

definition copy_variables :: "heap \<Rightarrow> addr option \<Rightarrow> heap \<times> addr" where
  "copy_variables h vars =
     (case vars of
        None \<Rightarrow> (h @ [Object []], length h)
      | Some a \<Rightarrow> (h @ [Object (if a < length h then own_properties (h ! a) else [])], length h))"

subsection \<open>The plugin on the heap\<close>

text \<open>
  The plugin once more, with the variables on the heap. The base key that the closure holds
  has the address of the copy as its \<^verbatim>\<open>variables\<close> property, and whenever a store key is
  made, \<^verbatim>\<open>JSON.stringify\<close> reads that object from the heap as it is then. Everything else
  is as above.
\<close>

record HeapBaseCacheKey =
  hk_documentText :: string
  hk_operationName :: "string option"
  hk_variables :: addr
  hk_extra :: json

record HeapRequestState =
  hst_sessionId :: "string option"
  hst_baseCacheKey :: "HeapBaseCacheKey option"


text \<open>
  The base key as \<^verbatim>\<open>JSON.stringify\<close> reads it when the heap is \<open>h\<close>; \<open>None\<close> when the
  variables cannot be read (see \<open>reify\<close>), where \<^verbatim>\<open>JSON.stringify\<close> throws.
\<close>

definition read_baseCacheKey :: "nat \<Rightarrow> heap \<Rightarrow> HeapBaseCacheKey \<Rightarrow> BaseCacheKey option" where
  "read_baseCacheKey n h k =
     (case reify n h (VRef (hk_variables k)) of
        Some (JObj ps) \<Rightarrow>
          Some \<lparr>documentText = hk_documentText k, operationName = hk_operationName k,
                variables = ps, extra = hk_extra k\<rparr>
      | _ \<Rightarrow> None)"

definition cacheGet_on_heap ::
  "nat \<Rightarrow> (string \<Rightarrow> error + json) \<Rightarrow> KeyValueCache \<Rightarrow> heap \<Rightarrow> HeapBaseCacheKey
     \<Rightarrow> ContextualCacheKey \<Rightarrow> (error + json) \<times> Effect list" where
  "cacheGet_on_heap n JSON_parse cache h baseCacheKey contextualCacheKeyFields =
     (case read_baseCacheKey n h baseCacheKey of
        None \<Rightarrow> (Inl (TypeError ''Converting circular structure to JSON''), [])
      | Some base \<Rightarrow> cacheGet JSON_parse cache base contextualCacheKeyFields)"


definition lookup_on_heap ::
  "nat \<Rightarrow> (string \<Rightarrow> error + json) \<Rightarrow> KeyValueCache \<Rightarrow> heap \<Rightarrow> HeapBaseCacheKey
     \<Rightarrow> string option \<Rightarrow> (error + json) \<times> Effect list" where
  "lookup_on_heap n JSON_parse cache h baseCacheKey sid =
     (case sid of
        None \<Rightarrow>
          cacheGet_on_heap n JSON_parse cache h baseCacheKey
            \<lparr>sessionMode = NoSession, sessionId = None\<rparr>
      | Some s \<Rightarrow>
          (case cacheGet_on_heap n JSON_parse cache h baseCacheKey
                  \<lparr>sessionMode = Private, sessionId = Some (Some s)\<rparr> of
             (Inl e, fx) \<Rightarrow> (Inl e, fx)
           | (Inr privateResponse, fx) \<Rightarrow>
               if privateResponse \<noteq> JNull then (Inr privateResponse, fx)
               else (case cacheGet_on_heap n JSON_parse cache h baseCacheKey
                            \<lparr>sessionMode = AuthenticatedPublic, sessionId = None\<rparr> of
                       (r, fx') \<Rightarrow> (r, fx @ fx'))))"

text \<open>
  \<^verbatim>\<open>executor\<close>, where \<open>vars\<close> is \<^verbatim>\<open>requestContext.request.variables\<close> (an address, or
  \<open>None\<close> for \<^verbatim>\<open>undefined\<close>); it also returns the heap, which the copy has extended.
\<close>

definition executor_on_heap ::
  "nat \<Rightarrow> (string \<Rightarrow> error + json) \<Rightarrow> Options \<Rightarrow> GraphQLRequestContext \<Rightarrow> addr option
     \<Rightarrow> heap \<Rightarrow> HeapRequestState
     \<Rightarrow> (error + json) \<times> HeapRequestState \<times> Effect list \<times> heap" where
  "executor_on_heap n JSON_parse options requestContext vars h st =
     (case isGraphQLQuery requestContext of
        Inl e \<Rightarrow> (Inl e, st, [], h)
      | Inr False \<Rightarrow> (Inr JNull, st, [], h)
      | Inr True \<Rightarrow>
          (case (case opt_sessionId options of
                   None \<Rightarrow> Inr (hst_sessionId st)
                 | Some hook \<Rightarrow>
                     (case hook requestContext of Inl e \<Rightarrow> Inl e | Inr p \<Rightarrow> await p)) of
             Inl e \<Rightarrow> (Inl e, st, [], h)
           | Inr sid \<Rightarrow>
               (let st1 = st\<lparr>hst_sessionId := sid\<rparr>
                in case resolve_extraCacheKeyData options requestContext of
                     Inl e \<Rightarrow> (Inl e, st1, [], h)
                   | Inr extraCacheKeyData \<Rightarrow>
                       (case copy_variables h vars of
                          (h1, c) \<Rightarrow>
                            (let base = \<lparr>hk_documentText = ctx_documentText requestContext,
                                         hk_operationName = ctx_operationName requestContext,
                                         hk_variables = c,
                                         hk_extra = extraCacheKeyData\<rparr>;
                                 st2 = st1\<lparr>hst_baseCacheKey := Some base\<rparr>
                             in case hook_refuses (opt_shouldReadFromCache options) requestContext of
                                  Inl e \<Rightarrow> (Inl e, st2, [], h1)
                                | Inr True \<Rightarrow> (Inr JNull, st2, [], h1)
                                | Inr False \<Rightarrow>
                                    (case lookup_on_heap n JSON_parse
                                            (plugin_cache options requestContext)
                                            h1 base (hst_sessionId st2) of
                                       (r, fx) \<Rightarrow> (r, st2, fx, h1)))))))"


subsection \<open>Example requests\<close>

definition example_result :: json where
  "example_result = JObj [(''data'', JObj [(''me'', JStr ''x'')])]"

text \<open>A \<^verbatim>\<open>JSON.parse\<close> that knows the one text these examples store and null.\<close>

definition example_parse :: "string \<Rightarrow> error + json" where
  "example_parse s =
     (if s = JSON_stringify example_result then Inr example_result
      else if s = ''null'' then Inr JNull
      else Inl (Thrown ''SyntaxError''))"

definition empty_store :: KeyValueCache where
  "empty_store = \<lparr>kv_get = (\<lambda>k. Inr None), kv_set = (\<lambda>k v t. None)\<rparr>"

definition full_store :: KeyValueCache where
  "full_store =
     \<lparr>kv_get = (\<lambda>k. Inr (Some (JSON_stringify example_result))), kv_set = (\<lambda>k v t. None)\<rparr>"

definition example_response :: GraphQLResponse where
  "example_response =
     \<lparr>data = Some (JObj [(''me'', JStr ''x'')]), errors = None,
      extensions = Some (JObj [(''tracing'', JNum 1)]), http = Some [(''age'', ''0'')]\<rparr>"

definition example_context :: GraphQLRequestContext where
  "example_context =
     \<lparr>request_variables = Some [(''id'', JNum 7)],
      ctx_documentText = ''query Q($id: Int) { me(id: $id) }'',
      ctx_operationName = Some ''Q'',
      operation = Some query,
      ctx_response = example_response,
      overallCachePolicy = Some \<lparr>maxAge = 60, scope = PUBLIC\<rparr>,
      ctx_cache = empty_store\<rparr>"

definition no_hooks :: Options where
  "no_hooks =
     \<lparr>opt_cache = None, opt_sessionId = None, opt_extraCacheKeyData = None,
      opt_shouldReadFromCache = None, opt_shouldWriteToCache = None\<rparr>"

text \<open>A session hook that answers with a promise for the session id alice.\<close>

definition alice_options :: Options where
  "alice_options = no_hooks\<lparr>opt_sessionId := Some (\<lambda>c. Inr (Promise (Inr (Some ''alice''))))\<rparr>"

definition example_base :: BaseCacheKey where
  "example_base = make_baseCacheKey example_context JNull"


section \<open>Properties\<close>

subsection \<open>The digest\<close>

lemma sha_abc:
  "sha ''abc'' = ''ba7816bf8f01cfea414140de5dae2223b00361a396177a9cb410ff61f20015ad''"
  by code_simp

lemma length_hex32: "length (hex32 w) = 8"
  by (simp add: hex32_def)

lemma hexdigit_range: "hexdigit n \<in> set ''0123456789abcdef''"
  unfolding hexdigit_def by (rule nth_mem) simp

lemma hex32_chars: "set (hex32 w) \<subseteq> set ''0123456789abcdef''"
proof -
  define H where "H = set ''0123456789abcdef''"
  have "hexdigit n \<in> H" for n
    unfolding H_def by (rule hexdigit_range)
  then have "set (hex32 w) \<subseteq> H"
    unfolding hex32_def by auto
  then show ?thesis
    unfolding H_def .
qed

lemma sha_state_cases:
  obtains a b c d e f g h where "st = (a, b, c, d, e, f, g, h :: word32)"
  by (cases st) auto

lemma sha_hex_length: "length (sha_hex st) = 64"
  by (rule sha_state_cases [of st]) (simp add: length_hex32)

lemma sha_hex_chars: "set (sha_hex st) \<subseteq> set ''0123456789abcdef''"
proof (rule sha_state_cases [of st])
  fix a b c d e f g h
  assume st: "st = (a, b, c, d, e, f, g, h)"
  define H where "H = set ''0123456789abcdef''"
  have "set (hex32 x) \<subseteq> H" for x
    unfolding H_def by (rule hex32_chars)
  then have "set (sha_hex st) \<subseteq> H"
    unfolding st sha_hex.simps by auto
  then show ?thesis
    unfolding H_def .
qed

lemma sha_length: "length (sha s) = 64"
  by (simp add: sha_def Let_def sha_hex_length)

lemma sha_chars: "set (sha s) \<subseteq> set ''0123456789abcdef''"
  by (simp add: sha_def Let_def sha_hex_chars del: set_simps)

text \<open>
  C9. The key serializer is a function of the six fields of the key alone: two keys with the
  same document text, operation name, variables (as an ordered property list), extra
  data, session mode and session id get the same store key; and every store key is a
  string of 64 lower-case hexadecimal digits, whatever the size of the key.
\<close>

theorem cacheKeyString_deterministic:
  fixes b1 b2 :: BaseCacheKey and c1 c2 :: ContextualCacheKey
  shows "(documentText b1 = documentText b2 \<and> operationName b1 = operationName b2 \<and>
          variables b1 = variables b2 \<and> extra b1 = extra b2 \<and>
          sessionMode c1 = sessionMode c2 \<and> sessionId c1 = sessionId c2
            \<longrightarrow> cacheKeyString (b1, c1) = cacheKeyString (b2, c2)) \<and>
         length (cacheKeyString (b1, c1)) = 64 \<and>
         set (cacheKeyString (b1, c1)) \<subseteq> set ''0123456789abcdef''"
proof (intro conjI impI)
  assume "documentText b1 = documentText b2 \<and> operationName b1 = operationName b2 \<and>
          variables b1 = variables b2 \<and> extra b1 = extra b2 \<and>
          sessionMode c1 = sessionMode c2 \<and> sessionId c1 = sessionId c2"
  then have "b1 = b2" and "c1 = c2"
    by simp_all
  then show "cacheKeyString (b1, c1) = cacheKeyString (b2, c2)"
    by simp
next
  show "length (cacheKeyString (b1, c1)) = 64"
    unfolding cacheKeyString_def by (rule sha_length)
next
  show "set (cacheKeyString (b1, c1)) \<subseteq> set ''0123456789abcdef''"
    unfolding cacheKeyString_def by (rule sha_chars)
qed

theorem cacheKeyString_deterministic_witness:
  "cacheKeyString (example_base, \<lparr>sessionMode = NoSession, sessionId = None\<rparr>) =
     cacheKeyString
       (\<lparr>documentText = ''query Q($id: Int) { me(id: $id) }'', operationName = Some ''Q'',
         variables = [(''id'', JNum 7)], extra = JNull\<rparr>,
        \<lparr>sessionMode = NoSession, sessionId = None\<rparr>) \<and>
   length (cacheKeyString (example_base, \<lparr>sessionMode = NoSession, sessionId = None\<rparr>)) = 64"
  using cacheKeyString_deterministic
    [of example_base
        "\<lparr>documentText = ''query Q($id: Int) { me(id: $id) }'', operationName = Some ''Q'',
          variables = [(''id'', JNum 7)], extra = JNull\<rparr>"
        "\<lparr>sessionMode = NoSession, sessionId = None\<rparr>"
        "\<lparr>sessionMode = NoSession, sessionId = None\<rparr>"]
  by (simp add: example_base_def make_baseCacheKey_def example_context_def del: set_simps)

subsection \<open>The text of a cache key\<close>

lemma hexdigit_inj: "i < 16 \<Longrightarrow> j < 16 \<Longrightarrow> hexdigit i = hexdigit j \<Longrightarrow> i = j"
proof -
  assume i: "i < 16" and j: "j < 16" and e: "hexdigit i = hexdigit j"
  have d: "distinct ''0123456789abcdef''" by simp
  have l: "length ''0123456789abcdef'' = 16" by simp
  from e have "''0123456789abcdef'' ! i = ''0123456789abcdef'' ! j"
    using i j by (simp add: hexdigit_def)
  then show ?thesis
    using nth_eq_iff_index_eq [OF d, of i j] i j l by simp
qed

lemma hex_pair_inj:
  assumes "hexdigit (of_char c div 16) = hexdigit (of_char d div 16)"
    and "hexdigit (of_char c mod 16) = hexdigit (of_char d mod 16)"
  shows "c = d"
proof -
  have c: "(of_char c :: nat) < 256" and d: "(of_char d :: nat) < 256"
    by simp_all
  then have "(of_char c :: nat) div 16 < 16" "(of_char d :: nat) div 16 < 16"
    by (simp_all add: less_mult_imp_div_less)
  with assms(1) have q: "(of_char c :: nat) div 16 = of_char d div 16"
    by (rule_tac hexdigit_inj)
  have "(of_char c :: nat) mod 16 < 16" "(of_char d :: nat) mod 16 < 16"
    by simp_all
  with assms(2) have r: "(of_char c :: nat) mod 16 = of_char d mod 16"
    by (rule_tac hexdigit_inj)
  have "(of_char c :: nat) = of_char d"
    using q r by (metis div_mult_mod_eq)
  then show ?thesis by simp
qed

lemma hexdigit_not_special: "hexdigit n \<noteq> CHR 0x22" "hexdigit n \<noteq> CHR 0x5C"
proof -
  have "hexdigit n \<in> set ''0123456789abcdef''"
    unfolding hexdigit_def by (rule nth_mem) simp
  then show "hexdigit n \<noteq> CHR 0x22" "hexdigit n \<noteq> CHR 0x5C"
    by auto
qed

lemma QuoteJSONChar_prefix_free:
  "QuoteJSONChar c @ x = QuoteJSONChar d @ y \<Longrightarrow> c = d"
  unfolding QuoteJSONChar_def
  by (auto split: if_splits dest: hex_pair_inj)

lemma QuoteJSONChar_nonempty: "QuoteJSONChar c \<noteq> []"
  by (simp add: QuoteJSONChar_def)

lemma quoted_chars_inj:
  "concat (map QuoteJSONChar a) = concat (map QuoteJSONChar b) \<Longrightarrow> a = b"
proof (induction a arbitrary: b)
  case Nil
  then show ?case
    by (cases b) (simp_all add: QuoteJSONChar_nonempty)
next
  case (Cons c a)
  show ?case
  proof (cases b)
    case Nil
    with Cons.prems show ?thesis
      by (simp add: QuoteJSONChar_nonempty)
  next
    case (Cons d b')
    with Cons.prems have e:
      "QuoteJSONChar c @ concat (map QuoteJSONChar a) = QuoteJSONChar d @ concat (map QuoteJSONChar b')"
      by simp
    then have "c = d" by (rule QuoteJSONChar_prefix_free)
    with e have "concat (map QuoteJSONChar a) = concat (map QuoteJSONChar b')" by simp
    then have "a = b'" by (rule Cons.IH)
    with \<open>c = d\<close> Cons show ?thesis by simp
  qed
qed

lemma QuoteJSONChar_quote:
  "QuoteJSONChar c = u @ CHR 0x22 # v \<Longrightarrow> u = [CHR 0x5C]"
  unfolding QuoteJSONChar_def
  by (auto split: if_splits simp: Cons_eq_append_conv append_eq_Cons_conv hexdigit_not_special)

lemma quoted_quote_after_backslash:
  "concat (map QuoteJSONChar s) = u @ CHR 0x22 # v \<Longrightarrow> u \<noteq> [] \<and> last u = CHR 0x5C"
proof (induction s arbitrary: u)
  case Nil
  then show ?case by simp
next
  case (Cons c s)
  then have "QuoteJSONChar c @ concat (map QuoteJSONChar s) = u @ CHR 0x22 # v"
    by simp
  then obtain w where
    "(QuoteJSONChar c = u @ w \<and> w @ concat (map QuoteJSONChar s) = CHR 0x22 # v) \<or>
     (QuoteJSONChar c @ w = u \<and> concat (map QuoteJSONChar s) = w @ CHR 0x22 # v)"
    unfolding append_eq_append_conv2 by blast
  then show ?case
  proof
    assume a: "QuoteJSONChar c = u @ w \<and> w @ concat (map QuoteJSONChar s) = CHR 0x22 # v"
    show ?thesis
    proof (cases w)
      case Nil
      with a have "concat (map QuoteJSONChar s) = [] @ CHR 0x22 # v" by simp
      from Cons.IH [OF this] show ?thesis by simp
    next
      case (Cons x w')
      with a have "x = CHR 0x22" by simp
      with a Cons have "QuoteJSONChar c = u @ CHR 0x22 # w'" by simp
      then have "u = [CHR 0x5C]" by (rule QuoteJSONChar_quote)
      then show ?thesis by simp
    qed
  next
    assume a: "QuoteJSONChar c @ w = u \<and> concat (map QuoteJSONChar s) = w @ CHR 0x22 # v"
    then have "concat (map QuoteJSONChar s) = w @ CHR 0x22 # v"
      by simp
    then have "w \<noteq> [] \<and> last w = CHR 0x5C"
      by (rule Cons.IH)
    moreover from a have "u = QuoteJSONChar c @ w"
      by simp
    ultimately show ?thesis by simp
  qed
qed

lemma quoted_value_inj:
  assumes "X @ '':'' @ QuoteJSONString a = Y @ '':'' @ QuoteJSONString b"
  shows "a = b"
proof -
  let ?e = "\<lambda>s. concat (map QuoteJSONChar s)"
  have step: "a' = b'"
    if eq: "(X' @ [CHR '':'', CHR 0x22]) = (Y' @ [CHR '':'', CHR 0x22]) @ us"
      and us: "us @ ?e a' = ?e b'" for X' Y' us a' b'
  proof (cases us rule: rev_cases)
    case Nil
    with us have "?e a' = ?e b'" by simp
    then show ?thesis by (rule quoted_chars_inj)
  next
    case (snoc us' z)
    with eq have "(X' @ [CHR '':'']) @ [CHR 0x22] = (Y' @ [CHR '':'', CHR 0x22] @ us') @ [z]"
      by simp
    then have pre: "X' @ [CHR '':''] = Y' @ [CHR '':'', CHR 0x22] @ us'" and z: "z = CHR 0x22"
      by (simp_all only: append1_eq_conv)
    from us snoc z have "?e b' = us' @ CHR 0x22 # ?e a'" by simp
    then have "us' \<noteq> [] \<and> last us' = CHR 0x5C"
      by (rule quoted_quote_after_backslash)
    moreover have "last us' = CHR '':''" if "us' \<noteq> []"
    proof -
      have "last (X' @ [CHR '':'']) = last ((Y' @ [CHR '':'', CHR 0x22]) @ us')"
        using pre by simp
      then show ?thesis
        using that by simp
    qed
    ultimately show ?thesis by simp
  qed
  from assms have "(X @ [CHR '':'', CHR 0x22]) @ ?e a = (Y @ [CHR '':'', CHR 0x22]) @ ?e b"
    by (simp add: QuoteJSONString_def)
  then obtain us where
    "((X @ [CHR '':'', CHR 0x22]) = (Y @ [CHR '':'', CHR 0x22]) @ us \<and> us @ ?e a = ?e b) \<or>
     ((X @ [CHR '':'', CHR 0x22]) @ us = (Y @ [CHR '':'', CHR 0x22]) \<and> ?e a = us @ ?e b)"
    unfolding append_eq_append_conv2 by blast
  then show ?thesis
  proof (elim disjE conjE)
    assume "X @ [CHR '':'', CHR 0x22] = (Y @ [CHR '':'', CHR 0x22]) @ us" and "us @ ?e a = ?e b"
    then show ?thesis by (rule step)
  next
    assume "(X @ [CHR '':'', CHR 0x22]) @ us = Y @ [CHR '':'', CHR 0x22]" and "?e a = us @ ?e b"
    then have "b = a" by (intro step [of Y X us b a]) simp_all
    then show ?thesis by simp
  qed
qed

lemma join_snoc: "xs \<noteq> [] \<Longrightarrow> join sep (xs @ [y]) = join sep xs @ sep @ y"
  by (induction sep xs rule: join.induct) auto

lemma stringify_object_last:
  assumes "ps \<noteq> []"
  shows "JSON_stringify (JObj (ps @ [(k, v)])) =
           (''{'' @ join '','' (map (\<lambda>(k, v). QuoteJSONString k @ '':'' @ JSON_stringify v) ps)
              @ '','' @ QuoteJSONString k @ '':'')
           @ JSON_stringify v @ ''}''"
  using assms by (simp add: join_snoc)

lemma stringify_object_last_two:
  assumes "ps \<noteq> []"
  shows "JSON_stringify (JObj (ps @ [(k, v), (k', v')])) =
           ((''{'' @ join '','' (map (\<lambda>(k, v). QuoteJSONString k @ '':'' @ JSON_stringify v) ps)
               @ '','' @ QuoteJSONString k) @ '':'' @ JSON_stringify v)
           @ ('','' @ QuoteJSONString k' @ '':'' @ JSON_stringify v' @ ''}'')"
proof -
  have "JSON_stringify (JObj ((ps @ [(k, v)]) @ [(k', v')])) =
          (''{'' @ join '','' (map (\<lambda>(k, v). QuoteJSONString k @ '':'' @ JSON_stringify v) (ps @ [(k, v)]))
             @ '','' @ QuoteJSONString k' @ '':'')
          @ JSON_stringify v' @ ''}''"
    by (rule stringify_object_last) simp
  then show ?thesis
    using assms by (simp add: join_snoc)
qed

lemma NumberToString_SessionMode:
  "NumberToString (SessionMode_value m) =
     [case m of NoSession \<Rightarrow> CHR ''0'' | Private \<Rightarrow> CHR ''1'' | AuthenticatedPublic \<Rightarrow> CHR ''2'']"
  by (cases m) (simp_all add: NumberToString_def hexdigit_def)

lemma key_text_mode:
  "\<exists>X. JSON_stringify (CacheKey_object (b, c)) =
         X @ NumberToString (SessionMode_value (sessionMode c)) @ ''}''"
proof -
  let ?ps = "[(''documentText'', JStr (documentText b)),
              (''operationName'', json_of_nullable (operationName b)),
              (''variables'', JObj (variables b)),
              (''extra'', extra b)]
             @ (case sessionId c of None \<Rightarrow> [] | Some v \<Rightarrow> [(''sessionId'', json_of_nullable v)])"
  have ps: "?ps \<noteq> []"
    by simp
  have obj: "CacheKey_object (b, c) =
               JObj (?ps @ [(''sessionMode'', JNum (SessionMode_value (sessionMode c)))])"
    by (simp add: CacheKey_object_def)
  have "JSON_stringify (CacheKey_object (b, c)) =
          (''{'' @ join '','' (map (\<lambda>(k, v). QuoteJSONString k @ '':'' @ JSON_stringify v) ?ps)
              @ '','' @ QuoteJSONString ''sessionMode'' @ '':'')
          @ JSON_stringify (JNum (SessionMode_value (sessionMode c))) @ ''}''"
    unfolding obj by (rule stringify_object_last [OF ps])
  then show ?thesis
    unfolding JSON_stringify.simps(3) by blast
qed

lemma key_text_private:
  "\<exists>X. JSON_stringify (CacheKey_object (b, \<lparr>sessionMode = Private, sessionId = Some (Some a)\<rparr>)) =
         (X @ '':'' @ QuoteJSONString a)
         @ ('','' @ QuoteJSONString ''sessionMode'' @ '':'' @ JSON_stringify (JNum 1) @ ''}'')"
proof -
  let ?ps = "[(''documentText'', JStr (documentText b)),
              (''operationName'', json_of_nullable (operationName b)),
              (''variables'', JObj (variables b)),
              (''extra'', extra b)]"
  have ps: "?ps \<noteq> []"
    by simp
  have obj: "CacheKey_object (b, \<lparr>sessionMode = Private, sessionId = Some (Some a)\<rparr>) =
               JObj (?ps @ [(''sessionId'', JStr a), (''sessionMode'', JNum 1)])"
    by (simp add: CacheKey_object_def json_of_nullable_def)
  have "JSON_stringify (CacheKey_object (b, \<lparr>sessionMode = Private, sessionId = Some (Some a)\<rparr>)) =
          ((''{'' @ join '','' (map (\<lambda>(k, v). QuoteJSONString k @ '':'' @ JSON_stringify v) ?ps)
               @ '','' @ QuoteJSONString ''sessionId'') @ '':'' @ JSON_stringify (JStr a))
           @ ('','' @ QuoteJSONString ''sessionMode'' @ '':'' @ JSON_stringify (JNum 1) @ ''}'')"
    unfolding obj by (rule stringify_object_last_two [OF ps])
  then show ?thesis
    unfolding JSON_stringify.simps(4) by blast
qed

lemma key_text_mode_differs:
  assumes "sessionMode c \<noteq> sessionMode c'"
  shows "JSON_stringify (CacheKey_object (b, c)) \<noteq> JSON_stringify (CacheKey_object (b', c'))"
proof
  assume eq: "JSON_stringify (CacheKey_object (b, c)) = JSON_stringify (CacheKey_object (b', c'))"
  obtain X where X: "JSON_stringify (CacheKey_object (b, c)) =
      X @ NumberToString (SessionMode_value (sessionMode c)) @ ''}''"
    using key_text_mode by blast
  obtain Y where Y: "JSON_stringify (CacheKey_object (b', c')) =
      Y @ NumberToString (SessionMode_value (sessionMode c')) @ ''}''"
    using key_text_mode by blast
  from eq have "X @ NumberToString (SessionMode_value (sessionMode c)) @ ''}'' =
                Y @ NumberToString (SessionMode_value (sessionMode c')) @ ''}''"
    unfolding X Y .
  then have "(case sessionMode c of
                NoSession \<Rightarrow> CHR ''0'' | Private \<Rightarrow> CHR ''1'' | AuthenticatedPublic \<Rightarrow> CHR ''2'') =
             (case sessionMode c' of
                NoSession \<Rightarrow> CHR ''0'' | Private \<Rightarrow> CHR ''1'' | AuthenticatedPublic \<Rightarrow> CHR ''2'')"
    unfolding NumberToString_SessionMode by simp
  with assms show False
    by (cases "sessionMode c"; cases "sessionMode c'") simp_all
qed

lemma key_text_private_differs:
  assumes "a \<noteq> a'"
  shows "JSON_stringify (CacheKey_object (b, \<lparr>sessionMode = Private, sessionId = Some (Some a)\<rparr>)) \<noteq>
         JSON_stringify (CacheKey_object (b', \<lparr>sessionMode = Private, sessionId = Some (Some a')\<rparr>))"
proof
  assume eq: "JSON_stringify (CacheKey_object (b, \<lparr>sessionMode = Private, sessionId = Some (Some a)\<rparr>)) =
         JSON_stringify (CacheKey_object (b', \<lparr>sessionMode = Private, sessionId = Some (Some a')\<rparr>))"
  obtain X where X: "JSON_stringify (CacheKey_object (b, \<lparr>sessionMode = Private, sessionId = Some (Some a)\<rparr>)) =
         (X @ '':'' @ QuoteJSONString a)
         @ ('','' @ QuoteJSONString ''sessionMode'' @ '':'' @ JSON_stringify (JNum 1) @ ''}'')"
    using key_text_private by blast
  obtain Y where Y: "JSON_stringify (CacheKey_object (b', \<lparr>sessionMode = Private, sessionId = Some (Some a')\<rparr>)) =
         (Y @ '':'' @ QuoteJSONString a')
         @ ('','' @ QuoteJSONString ''sessionMode'' @ '':'' @ JSON_stringify (JNum 1) @ ''}'')"
    using key_text_private by blast
  from eq have "X @ '':'' @ QuoteJSONString a = Y @ '':'' @ QuoteJSONString a'"
    unfolding X Y by (simp only: append_same_eq)
  then have "a = a'" by (rule quoted_value_inj)
  with assms show False by simp
qed

lemma lookup_reads_other_keys:
  assumes "sidB \<noteq> Some A"
    and "StoreGet k \<in> set (snd (lookup parse cache baseB sidB))"
  shows "\<exists>t. k = sha t \<and>
             t \<noteq> JSON_stringify
                   (CacheKey_object (baseA, \<lparr>sessionMode = Private, sessionId = Some (Some A)\<rparr>))"
proof -
  let ?tA = "JSON_stringify (CacheKey_object (baseA, \<lparr>sessionMode = Private, sessionId = Some (Some A)\<rparr>))"
  have "\<exists>fields. k = cacheKeyString (baseB, fields) \<and>
          (sessionMode fields \<noteq> Private \<or>
           (\<exists>s. s \<noteq> A \<and> fields = \<lparr>sessionMode = Private, sessionId = Some (Some s)\<rparr>))"
    using assms
    by (auto simp: lookup_def cacheGet_def Let_def split: option.splits sum.splits if_splits)
  then obtain fields where k: "k = cacheKeyString (baseB, fields)"
    and f: "sessionMode fields \<noteq> Private \<or>
            (\<exists>s. s \<noteq> A \<and> fields = \<lparr>sessionMode = Private, sessionId = Some (Some s)\<rparr>)"
    by blast
  from f have "JSON_stringify (CacheKey_object (baseB, fields)) \<noteq> ?tA"
  proof
    assume "sessionMode fields \<noteq> Private"
    then show ?thesis
      using key_text_mode_differs [of fields "\<lparr>sessionMode = Private, sessionId = Some (Some A)\<rparr>" baseB baseA]
      by simp
  next
    assume "\<exists>s. s \<noteq> A \<and> fields = \<lparr>sessionMode = Private, sessionId = Some (Some s)\<rparr>"
    then show ?thesis
      using key_text_private_differs [of _ A baseB baseA] by auto
  qed
  then show ?thesis
    using k by (auto simp: cacheKeyString_def)
qed

lemma executor_reads:
  assumes "executor parse options ctx st = (r, st', fx)"
  shows "fx = [] \<or> (\<exists>cache base. fx = snd (lookup parse cache base (st_sessionId st')))"
  using assms
  by (auto simp: executor_def Let_def split: sum.splits bool.splits prod.splits)
     (metis snd_conv)

text \<open>
  C1. Whatever the request and its base key, every store key that the executor reads for a
  request whose resolved session id is not \<open>A\<close> (another session id, or none) is the
  digest of a text other than the text of a key \<open>{Private, A}\<close>, of any base key: the
  texts of the modes differ in their last digit, and two Private texts with different
  session ids differ because a quoted string ends at its first unescaped quote. So such a
  read meets an entry written under \<open>{Private, A}\<close> only if SHA-256 gives two different
  texts the same digest.
\<close>

theorem private_isolation:
  assumes "executor parse options ctx st = (r, st', fx)"
    and "st_sessionId st' \<noteq> Some A"
    and "StoreGet k \<in> set fx"
  shows "\<exists>t. k = sha t \<and>
             t \<noteq> JSON_stringify
                   (CacheKey_object (baseA, \<lparr>sessionMode = Private, sessionId = Some (Some A)\<rparr>)) \<and>
             (k = cacheKeyString (baseA, \<lparr>sessionMode = Private, sessionId = Some (Some A)\<rparr>)
                \<longrightarrow> sha t = sha (JSON_stringify
                       (CacheKey_object (baseA, \<lparr>sessionMode = Private, sessionId = Some (Some A)\<rparr>))))"
proof -
  from assms(1,3) obtain cache base where "fx = snd (lookup parse cache base (st_sessionId st'))"
    using executor_reads by fastforce
  with assms(3) have "StoreGet k \<in> set (snd (lookup parse cache base (st_sessionId st')))"
    by simp
  with assms(2) obtain t where "k = sha t"
    and "t \<noteq> JSON_stringify
                   (CacheKey_object (baseA, \<lparr>sessionMode = Private, sessionId = Some (Some A)\<rparr>))"
    using lookup_reads_other_keys by blast
  then show ?thesis
    by (auto simp: cacheKeyString_def)
qed

theorem private_isolation_witness:
  "st_sessionId \<lparr>st_sessionId = Some ''bob'', st_baseCacheKey = Some example_base\<rparr> \<noteq> Some ''alice'' \<and>
   (\<exists>t. cacheKeyString
               (example_base, \<lparr>sessionMode = Private, sessionId = Some (Some ''bob'')\<rparr>) =
          sha t \<and>
        t \<noteq> JSON_stringify
              (CacheKey_object (example_base, \<lparr>sessionMode = Private, sessionId = Some (Some ''alice'')\<rparr>)))"
proof -
  let ?o = "no_hooks\<lparr>opt_sessionId := Some (\<lambda>c. Inr (Value (Some ''bob'')))\<rparr>"
  let ?st = "\<lparr>st_sessionId = Some ''bob'', st_baseCacheKey = Some example_base\<rparr>"
  let ?kP = "cacheKeyString
               (example_base, \<lparr>sessionMode = Private, sessionId = Some (Some ''bob'')\<rparr>)"
  let ?kA = "cacheKeyString
               (example_base, \<lparr>sessionMode = AuthenticatedPublic, sessionId = None\<rparr>)"
  have e: "executor example_parse ?o example_context initial_state =
             (Inr JNull, ?st, [StoreGet ?kP, StoreGet ?kA])"
    by (simp add: executor_def lookup_def cacheGet_def isGraphQLQuery_def hook_refuses_def
        resolve_sessionId_def resolve_extraCacheKeyData_def plugin_cache_def PrefixingKeyValueCache_def Let_def
        no_hooks_def example_context_def empty_store_def initial_state_def example_base_def)
  have d: "st_sessionId ?st \<noteq> Some ''alice''"
    by simp
  have r: "StoreGet ?kP \<in> set [StoreGet ?kP, StoreGet ?kA]"
    by simp
  show ?thesis
    using d private_isolation [OF e d r, of example_base] by blast
qed

subsection \<open>The read path\<close>

text \<open>
  C2. For a query whose session id and extra data have been resolved and whose read is not
  refused: with no session id the executor reads the store once, under the key of mode
  NoSession, and returns what that read gives; with a session id it reads the key of
  \<open>{Private, sessionId}\<close> first and returns a non-null answer (or a failure) at once,
  with no other read, and only when that answer is null it reads the key of mode
  AuthenticatedPublic and returns what this second read gives. The effect list holds the
  reads in the order they happen, one or two of them.
\<close>

theorem executor_lookup_algorithm:
  assumes "operation ctx = Some query"
    and "resolve_sessionId options ctx st = Inr st1"
    and "resolve_extraCacheKeyData options ctx = Inr x"
    and "hook_refuses (opt_shouldReadFromCache options) ctx = Inr False"
  shows "let base = make_baseCacheKey ctx x;
             st2 = st1\<lparr>st_baseCacheKey := Some base\<rparr>;
             cache = plugin_cache options ctx;
             get = (\<lambda>fields. fst (cacheGet parse cache base fields));
             read = (\<lambda>fields. StoreGet (cacheKeyString (base, fields)));
             noSession = \<lparr>sessionMode = NoSession, sessionId = None\<rparr>;
             authenticatedPublic = \<lparr>sessionMode = AuthenticatedPublic, sessionId = None\<rparr>
         in case st_sessionId st1 of
              None \<Rightarrow> executor parse options ctx st = (get noSession, st2, [read noSession])
            | Some s \<Rightarrow>
                (let private = \<lparr>sessionMode = Private, sessionId = Some (Some s)\<rparr>
                 in case get private of
                      Inl e \<Rightarrow> executor parse options ctx st = (Inl e, st2, [read private])
                    | Inr r \<Rightarrow>
                        if r \<noteq> JNull
                        then executor parse options ctx st = (Inr r, st2, [read private])
                        else executor parse options ctx st =
                               (get authenticatedPublic, st2, [read private, read authenticatedPublic]))"
  using assms
  by (auto simp: executor_def isGraphQLQuery_def lookup_def cacheGet_def Let_def
      split: option.splits sum.splits prod.splits)

theorem executor_lookup_algorithm_witness:
  "executor example_parse alice_options example_context initial_state =
     (Inr JNull,
      \<lparr>st_sessionId = Some ''alice'', st_baseCacheKey = Some example_base\<rparr>,
      [StoreGet (cacheKeyString
                   (example_base, \<lparr>sessionMode = Private, sessionId = Some (Some ''alice'')\<rparr>)),
       StoreGet (cacheKeyString
                   (example_base, \<lparr>sessionMode = AuthenticatedPublic, sessionId = None\<rparr>))])"
proof -
  have q: "operation example_context = Some query"
    by (simp add: example_context_def)
  have s: "resolve_sessionId alice_options example_context initial_state =
             Inr \<lparr>st_sessionId = Some ''alice'', st_baseCacheKey = None\<rparr>"
    by (simp add: resolve_sessionId_def alice_options_def no_hooks_def initial_state_def)
  have x: "resolve_extraCacheKeyData alice_options example_context = Inr JNull"
    by (simp add: resolve_extraCacheKeyData_def alice_options_def no_hooks_def)
  have r: "hook_refuses (opt_shouldReadFromCache alice_options) example_context = Inr False"
    by (simp add: hook_refuses_def alice_options_def no_hooks_def)
  show ?thesis
    using executor_lookup_algorithm [OF q s x r, of example_parse]
    by (simp add: Let_def cacheGet_def plugin_cache_def PrefixingKeyValueCache_def alice_options_def no_hooks_def
        example_base_def example_context_def empty_store_def)
qed

text \<open>
  C7. When the predicate \<^verbatim>\<open>shouldReadFromCache\<close> is configured and returns the boolean
  false for a query, the executor returns null and touches the store not at all, and the
  state it leaves holds the base key of the request and the session id that the session
  hook resolved.
\<close>

theorem executor_should_read_false:
  assumes "operation ctx = Some query"
    and "resolve_sessionId options ctx st = Inr st1"
    and "resolve_extraCacheKeyData options ctx = Inr x"
    and "opt_shouldReadFromCache options = Some h"
    and "h ctx = Inr (Value False)"
  shows "executor parse options ctx st =
           (Inr JNull, st1\<lparr>st_baseCacheKey := Some (make_baseCacheKey ctx x)\<rparr>, []) \<and>
         (case opt_sessionId options of
            None \<Rightarrow> st_sessionId st1 = st_sessionId st
          | Some hs \<Rightarrow> \<exists>p. hs ctx = Inr p \<and> await p = Inr (st_sessionId st1))"
  using assms
  by (auto simp: executor_def isGraphQLQuery_def hook_refuses_def resolve_sessionId_def Let_def
      split: option.splits sum.splits prod.splits)

theorem executor_should_read_false_witness:
  "executor example_parse
     (alice_options\<lparr>opt_shouldReadFromCache := Some (\<lambda>c. Inr (Value False))\<rparr>)
     (example_context\<lparr>ctx_cache := full_store\<rparr>) initial_state =
     (Inr JNull,
      \<lparr>st_sessionId = Some ''alice'',
       st_baseCacheKey = Some (make_baseCacheKey (example_context\<lparr>ctx_cache := full_store\<rparr>) JNull)\<rparr>,
      []) \<and>
   await (Promise (Inr (Some ''alice'')) :: string option ValueOrPromise) = Inr (Some ''alice'')"
proof -
  let ?o = "alice_options\<lparr>opt_shouldReadFromCache := Some (\<lambda>c. Inr (Value False))\<rparr>"
  let ?c = "example_context\<lparr>ctx_cache := full_store\<rparr>"
  have q: "operation ?c = Some query"
    by (simp add: example_context_def)
  have s: "resolve_sessionId ?o ?c initial_state =
             Inr \<lparr>st_sessionId = Some ''alice'', st_baseCacheKey = None\<rparr>"
    by (simp add: resolve_sessionId_def alice_options_def no_hooks_def initial_state_def)
  have x: "resolve_extraCacheKeyData ?o ?c = Inr JNull"
    by (simp add: resolve_extraCacheKeyData_def alice_options_def no_hooks_def)
  have h: "opt_shouldReadFromCache ?o = Some (\<lambda>c. Inr (Value False))"
    by simp
  have f: "(\<lambda>c. Inr (Value False) :: error + bool ValueOrPromise) ?c = Inr (Value False)"
    by simp
  show ?thesis
    using executor_should_read_false [OF q s x h f, of example_parse] by simp
qed

text \<open>
  C8. The predicates are not awaited: the result of the call is negated as it is. With a
  \<^verbatim>\<open>shouldReadFromCache\<close> that returns a promise of false the executor still reads the
  store and returns the cached response, and with a \<^verbatim>\<open>shouldWriteToCache\<close> that returns a
  promise of false the response is still written.
\<close>

theorem unawaited_predicates:
  "executor example_parse
     (no_hooks\<lparr>opt_shouldReadFromCache := Some (\<lambda>c. Inr (Promise (Inr False)))\<rparr>)
     (example_context\<lparr>ctx_cache := full_store\<rparr>) initial_state =
     (Inr example_result,
      \<lparr>st_sessionId = None,
       st_baseCacheKey = Some (make_baseCacheKey (example_context\<lparr>ctx_cache := full_store\<rparr>) JNull)\<rparr>,
      [StoreGet (cacheKeyString
         (make_baseCacheKey (example_context\<lparr>ctx_cache := full_store\<rparr>) JNull,
          \<lparr>sessionMode = NoSession, sessionId = None\<rparr>))]) \<and>
   willSendResponse
     (no_hooks\<lparr>opt_shouldWriteToCache := Some (\<lambda>c. Inr (Promise (Inr False)))\<rparr>)
     example_context \<lparr>st_sessionId = None, st_baseCacheKey = Some example_base\<rparr> =
     (Inr (),
      [StoreSet (cacheKeyString (example_base, \<lparr>sessionMode = NoSession, sessionId = None\<rparr>))
         (JSON_stringify (JObj [(''data'', JObj [(''me'', JStr ''x'')])])) 60])"
  by (simp add: executor_def lookup_def cacheGet_def willSendResponse_def isGraphQLQuery_def
      hook_refuses_def not_cacheable_def resolve_sessionId_def resolve_extraCacheKeyData_def
      cacheSetInBackground_def plugin_cache_def PrefixingKeyValueCache_def Let_def example_parse_def
      no_hooks_def example_context_def example_response_def empty_store_def full_store_def
      initial_state_def example_result_def
      del: JSON_stringify.simps)

subsection \<open>The write path\<close>

text \<open>
  C4, as amended. If \<^verbatim>\<open>willSendResponse\<close> writes to the store, then the response has no
  \<^verbatim>\<open>errors\<close> property, its \<^verbatim>\<open>data\<close> is present and truthy (not undefined, null or
  another falsy value; an empty object is truthy), a cache policy is present, and the
  \<^verbatim>\<open>maxAge\<close> of the policy is positive.
\<close>

theorem willSendResponse_gate:
  "(\<exists>k v t. StoreSet k v t \<in> set (snd (willSendResponse options ctx st))) \<longrightarrow>
     errors (ctx_response ctx) = None \<and>
     (\<exists>d. data (ctx_response ctx) = Some d \<and> js_truthy d) \<and>
     (\<exists>p. overallCachePolicy ctx = Some p \<and> 0 < maxAge p)"
  by (auto simp: willSendResponse_def not_cacheable_def Let_def
      split: option.splits sum.splits prod.splits if_splits bool.splits)

theorem willSendResponse_gate_witness:
  "(\<exists>k v t. StoreSet k v t \<in> set (snd (willSendResponse no_hooks example_context
       \<lparr>st_sessionId = None, st_baseCacheKey = Some example_base\<rparr>))) \<and>
   errors (ctx_response example_context) = None \<and>
   (\<exists>d. data (ctx_response example_context) = Some d \<and> js_truthy d) \<and>
   (\<exists>p. overallCachePolicy example_context = Some p \<and> 0 < maxAge p)"
proof -
  let ?st = "\<lparr>st_sessionId = None, st_baseCacheKey = Some example_base\<rparr>"
  have w: "\<exists>k v t. StoreSet k v t \<in> set (snd (willSendResponse no_hooks example_context ?st))"
    by (simp add: willSendResponse_def isGraphQLQuery_def hook_refuses_def not_cacheable_def
        cacheSetInBackground_def plugin_cache_def PrefixingKeyValueCache_def Let_def
        no_hooks_def example_context_def example_response_def empty_store_def
        del: JSON_stringify.simps)
  show ?thesis
    using w willSendResponse_gate [of no_hooks example_context ?st] by blast
qed

text \<open>
  C4, as the claim words it, fails where the data of the response is the empty object:
  the test \<^verbatim>\<open>!response.data\<close> lets it pass, and \<^verbatim>\<open>{"data":{}}\<close> is written.
\<close>

theorem willSendResponse_gate_counterexample:
  "data (ctx_response (example_context\<lparr>ctx_response := example_response\<lparr>data := Some (JObj [])\<rparr>\<rparr>)) =
     Some (JObj []) \<and>
   willSendResponse no_hooks
     (example_context\<lparr>ctx_response := example_response\<lparr>data := Some (JObj [])\<rparr>\<rparr>)
     \<lparr>st_sessionId = None, st_baseCacheKey = Some example_base\<rparr> =
     (Inr (),
      [StoreSet (cacheKeyString (example_base, \<lparr>sessionMode = NoSession, sessionId = None\<rparr>))
         (JSON_stringify (JObj [(''data'', JObj [])])) 60])"
  by (simp add: willSendResponse_def isGraphQLQuery_def hook_refuses_def not_cacheable_def
      cacheSetInBackground_def plugin_cache_def PrefixingKeyValueCache_def Let_def
      no_hooks_def example_context_def example_response_def empty_store_def
      del: JSON_stringify.simps)

text \<open>
  C5. A cacheable response of a query, reached when the base key of the request was never
  set, makes \<^verbatim>\<open>willSendResponse\<close> throw, with no effect on the store.
\<close>

theorem willSendResponse_without_base_key:
  assumes "operation ctx = Some query"
    and "hook_refuses (opt_shouldWriteToCache options) ctx = Inr False"
    and "\<not> not_cacheable (ctx_response ctx) (overallCachePolicy ctx)"
    and "st_baseCacheKey st = None"
  shows "willSendResponse options ctx st =
           (Inl (Error ''willSendResponse called without error, but execute not called?''), [])"
  using assms
  by (auto simp: willSendResponse_def isGraphQLQuery_def not_cacheable_def Let_def
      split: option.splits sum.splits prod.splits)

theorem willSendResponse_without_base_key_witness:
  "willSendResponse no_hooks example_context initial_state =
     (Inl (Error ''willSendResponse called without error, but execute not called?''), [])"
proof -
  have q: "operation example_context = Some query"
    by (simp add: example_context_def)
  have w: "hook_refuses (opt_shouldWriteToCache no_hooks) example_context = Inr False"
    by (simp add: hook_refuses_def no_hooks_def)
  have c: "\<not> not_cacheable (ctx_response example_context) (overallCachePolicy example_context)"
    by (simp add: not_cacheable_def example_context_def example_response_def)
  have b: "st_baseCacheKey initial_state = None"
    by (simp add: initial_state_def)
  show ?thesis
    using willSendResponse_without_base_key [OF q w c b] .
qed

text \<open>
  C6. Every value that \<^verbatim>\<open>willSendResponse\<close> writes is \<^verbatim>\<open>JSON.stringify\<close> of the object
  whose one property is the \<^verbatim>\<open>data\<close> of the response: the errors, the extensions and
  the http part of the response are not in it.
\<close>

theorem willSendResponse_persists_data_only:
  "StoreSet k v t \<in> set (snd (willSendResponse options ctx st)) \<longrightarrow>
     (\<exists>d. data (ctx_response ctx) = Some d \<and> v = JSON_stringify (JObj [(''data'', d)]))"
  by (auto simp: willSendResponse_def not_cacheable_def cacheSetInBackground_def Let_def
      split: option.splits sum.splits prod.splits if_splits bool.splits)

theorem willSendResponse_persists_data_only_witness:
  "StoreSet (cacheKeyString (example_base, \<lparr>sessionMode = NoSession, sessionId = None\<rparr>))
     (JSON_stringify (JObj [(''data'', JObj [(''me'', JStr ''x'')])])) 60
     \<in> set (snd (willSendResponse no_hooks example_context
                    \<lparr>st_sessionId = None, st_baseCacheKey = Some example_base\<rparr>)) \<and>
   (\<exists>d. data (ctx_response example_context) = Some d \<and>
        JSON_stringify (JObj [(''data'', JObj [(''me'', JStr ''x'')])]) =
          JSON_stringify (JObj [(''data'', d)]))"
proof -
  let ?st = "\<lparr>st_sessionId = None, st_baseCacheKey = Some example_base\<rparr>"
  let ?k = "cacheKeyString (example_base, \<lparr>sessionMode = NoSession, sessionId = None\<rparr>)"
  let ?v = "JSON_stringify (JObj [(''data'', JObj [(''me'', JStr ''x'')])])"
  have w: "StoreSet ?k ?v 60 \<in> set (snd (willSendResponse no_hooks example_context ?st))"
    by (simp add: willSendResponse_def isGraphQLQuery_def hook_refuses_def not_cacheable_def
        cacheSetInBackground_def plugin_cache_def PrefixingKeyValueCache_def Let_def
        no_hooks_def example_context_def example_response_def empty_store_def
        del: JSON_stringify.simps)
  show ?thesis
    using w willSendResponse_persists_data_only [of ?k ?v 60 no_hooks example_context ?st]
    by blast
qed

text \<open>
  C3. For a cacheable response of a query, with the base key set: under scope PRIVATE,
  without a session hook a warning is logged and nothing is written; with a hook and no
  session id nothing happens at all; with a hook and a session id the write goes under
  \<open>{Private, sessionId}\<close>. Under scope PUBLIC the write goes under NoSession without a
  session id and under AuthenticatedPublic with one. A write sets the key of the base key
  and these contextual fields to the serialized \<open>{data}\<close> with the policy's
  \<^verbatim>\<open>maxAge\<close> as time to live.
\<close>

theorem willSendResponse_session_mode:
  assumes "operation ctx = Some query"
    and "hook_refuses (opt_shouldWriteToCache options) ctx = Inr False"
    and "\<not> not_cacheable (ctx_response ctx) (overallCachePolicy ctx)"
    and "data (ctx_response ctx) = Some d"
    and "overallCachePolicy ctx = Some policy"
    and "st_baseCacheKey st = Some base"
  shows "let cache = plugin_cache options ctx;
             write = (\<lambda>fields. cacheSetInBackground cache base fields (JObj [(''data'', d)]) (maxAge policy))
         in (scope policy = PRIVATE \<and> opt_sessionId options = None \<longrightarrow>
               willSendResponse options ctx st = (Inr (), [ConsoleWarn private_without_hook_warning])) \<and>
            (scope policy = PRIVATE \<and> opt_sessionId options \<noteq> None \<and> st_sessionId st = None \<longrightarrow>
               willSendResponse options ctx st = (Inr (), [])) \<and>
            (\<forall>s. scope policy = PRIVATE \<and> opt_sessionId options \<noteq> None \<and> st_sessionId st = Some s \<longrightarrow>
               willSendResponse options ctx st =
                 (Inr (), write \<lparr>sessionMode = Private, sessionId = Some (Some s)\<rparr>)) \<and>
            (scope policy = PUBLIC \<and> st_sessionId st = None \<longrightarrow>
               willSendResponse options ctx st =
                 (Inr (), write \<lparr>sessionMode = NoSession, sessionId = None\<rparr>)) \<and>
            (scope policy = PUBLIC \<and> st_sessionId st \<noteq> None \<longrightarrow>
               willSendResponse options ctx st =
                 (Inr (), write \<lparr>sessionMode = AuthenticatedPublic, sessionId = None\<rparr>)) \<and>
            (\<forall>fields. hd (write fields) = StoreSet (cacheKeyString (base, fields))
                                 (JSON_stringify (JObj [(''data'', d)])) (maxAge policy))"
  using assms
  by (auto simp: willSendResponse_def isGraphQLQuery_def cacheSetInBackground_def Let_def
      split: option.splits sum.splits prod.splits)

theorem willSendResponse_session_mode_witness:
  "willSendResponse alice_options
     (example_context\<lparr>overallCachePolicy := Some \<lparr>maxAge = 30, scope = PRIVATE\<rparr>\<rparr>)
     \<lparr>st_sessionId = Some ''alice'', st_baseCacheKey = Some example_base\<rparr> =
     (Inr (),
      [StoreSet (cacheKeyString
                   (example_base, \<lparr>sessionMode = Private, sessionId = Some (Some ''alice'')\<rparr>))
         (JSON_stringify (JObj [(''data'', JObj [(''me'', JStr ''x'')])])) 30])"
proof -
  let ?ctx = "example_context\<lparr>overallCachePolicy := Some \<lparr>maxAge = 30, scope = PRIVATE\<rparr>\<rparr>"
  let ?st = "\<lparr>st_sessionId = Some ''alice'', st_baseCacheKey = Some example_base\<rparr>"
  have q: "operation ?ctx = Some query"
    by (simp add: example_context_def)
  have w: "hook_refuses (opt_shouldWriteToCache alice_options) ?ctx = Inr False"
    by (simp add: hook_refuses_def alice_options_def no_hooks_def)
  have c: "\<not> not_cacheable (ctx_response ?ctx) (overallCachePolicy ?ctx)"
    by (simp add: not_cacheable_def example_context_def example_response_def)
  have d: "data (ctx_response ?ctx) = Some (JObj [(''me'', JStr ''x'')])"
    by (simp add: example_context_def example_response_def)
  have p: "overallCachePolicy ?ctx = Some \<lparr>maxAge = 30, scope = PRIVATE\<rparr>"
    by simp
  have b: "st_baseCacheKey ?st = Some example_base"
    by simp
  show ?thesis
    using willSendResponse_session_mode [OF q w c d p b]
    by (simp add: Let_def cacheSetInBackground_def plugin_cache_def PrefixingKeyValueCache_def alice_options_def
        no_hooks_def example_context_def empty_store_def del: JSON_stringify.simps)
qed

subsection \<open>The copy of the variables\<close>

lemma reify_frame:
  assumes "\<forall>b \<in> set (refs_of n h v). b < length h \<and> b \<noteq> a"
    and "length h \<le> length h'"
    and "\<forall>b < length h. b \<noteq> a \<longrightarrow> h' ! b = h ! b"
  shows "reify n h' v = reify n h v"
  using assms(1)
proof (induction n arbitrary: v)
  case 0
  then show ?case by (cases v) simp_all
next
  case (Suc n)
  show ?case
  proof (cases v)
    case (VRef b)
    with Suc.prems have b: "b < length h" "b \<noteq> a"
      by simp_all
    with assms(2,3) have b': "b < length h'" "h' ! b = h ! b"
      by simp_all
    have kids: "reify n h' w = reify n h w" if "w \<in> set (children (h ! b))" for w
    proof (rule Suc.IH)
      show "\<forall>c\<in>set (refs_of n h w). c < length h \<and> c \<noteq> a"
        using Suc.prems VRef b that by auto
    qed
    show ?thesis
    proof (cases "h ! b")
      case (Object ps)
      have "reify n h' w = reify n h w" if "(k, w) \<in> set ps" for k w
        using that Object by (intro kids) force
      then have eq: "map (\<lambda>(k, v). map_option (Pair k) (reify n h' v)) ps =
            map (\<lambda>(k, v). map_option (Pair k) (reify n h v)) ps"
        by (auto intro!: map_cong)
      show ?thesis
        using b b' Object VRef by (simp add: eq)
    next
      case (Array vs)
      have eq: "map (reify n h') vs = map (reify n h) vs"
        using kids Array by (auto intro!: map_cong)
      show ?thesis
        using b b' Array VRef by (simp add: eq)
    qed
  qed simp_all
qed

lemma those_Some_member:
  "those xs = Some ys \<Longrightarrow> x \<in> set xs \<Longrightarrow> \<exists>y. x = Some y"
  by (induction xs arbitrary: ys) (auto split: option.splits)

lemma reify_ref_Some:
  assumes "reify (Suc n) h (VRef x) = Some j"
  shows "x < length h" and "\<And>w. w \<in> set (children (h ! x)) \<Longrightarrow> \<exists>j'. reify n h w = Some j'"
proof -
  show x: "x < length h"
    using assms by (simp split: if_splits)
  fix w
  assume w: "w \<in> set (children (h ! x))"
  show "\<exists>j'. reify n h w = Some j'"
  proof (cases "h ! x")
    case (Object ps)
    with w obtain k where k: "(k, w) \<in> set ps"
      by auto
    from assms x Object obtain ys where
      "those (map (\<lambda>(k, v). map_option (Pair k) (reify n h v)) ps) = Some ys"
      by auto
    moreover have "map_option (Pair k) (reify n h w)
        \<in> set (map (\<lambda>(k, v). map_option (Pair k) (reify n h v)) ps)"
      using k by force
    ultimately have "\<exists>y. map_option (Pair k) (reify n h w) = Some y"
      by (rule those_Some_member)
    then show ?thesis by auto
  next
    case (Array vs)
    from assms x Array obtain ys where "those (map (reify n h) vs) = Some ys"
      by auto
    moreover have "reify n h w \<in> set (map (reify n h) vs)"
      using w Array by simp
    ultimately show ?thesis
      by (rule those_Some_member)
  qed
qed

lemma refs_of_ref:
  assumes "b \<in> set (refs_of (Suc n) h (VRef x))" and "b \<noteq> x"
  shows "x < length h \<and> (\<exists>w \<in> set (children (h ! x)). b \<in> set (refs_of n h w))"
  using assms by (cases "x < length h") auto

lemma reify_Some_sub:
  "reify n h v = Some j \<Longrightarrow> b \<in> set (refs_of n h v) \<Longrightarrow>
     \<exists>m j'. Suc m \<le> n \<and> reify (Suc m) h (VRef b) = Some j'"
proof (induction n arbitrary: v j)
  case 0
  then show ?case by simp
next
  case (Suc n)
  show ?case
  proof (cases v)
    case (VRef x)
    show ?thesis
    proof (cases "b = x")
      case True
      with Suc.prems VRef show ?thesis by blast
    next
      case False
      with Suc.prems VRef obtain w where w: "w \<in> set (children (h ! x))" "b \<in> set (refs_of n h w)"
        using refs_of_ref by blast
      from Suc.prems VRef w obtain j' where "reify n h w = Some j'"
        using reify_ref_Some(2) by blast
      from Suc.IH [OF this w(2)] show ?thesis
        using le_Suc_eq by blast
    qed
  qed (use Suc.prems in auto)
qed









lemma reify_Some_refs_allocated:
  assumes "reify n h v = Some j" and "b \<in> set (refs_of n h v)"
  shows "b < length h"
proof -
  from assms obtain m j' where "reify (Suc m) h (VRef b) = Some j'"
    using reify_Some_sub by blast
  then show ?thesis
    by (rule reify_ref_Some(1))
qed

lemma reify_append:
  assumes "reify n h v = Some j"
  shows "reify n (h @ h_new) v = Some j"
proof -
  have "\<forall>b \<in> set (refs_of n h v). b < length h \<and> b \<noteq> length h"
    using assms reify_Some_refs_allocated by fastforce
  moreover have "length h \<le> length (h @ h_new)"
    by simp
  moreover have "\<forall>b < length h. b \<noteq> length h \<longrightarrow> (h @ h_new) ! b = h ! b"
    by (simp add: nth_append)
  ultimately have "reify n (h @ h_new) v = reify n h v"
    by (rule reify_frame)
  with assms show ?thesis by simp
qed

lemma reify_object:
  assumes "reify n h (VRef a) = Some (JObj ps)"
  obtains n' ps0 where "n = Suc n'" and "a < length h" and "h ! a = Object ps0"
    and "those (map (\<lambda>(k, v). map_option (Pair k) (reify n' h v)) ps0) = Some ps"
proof -
  from assms obtain n' where n: "n = Suc n'"
    by (cases n) simp_all
  with assms have a: "a < length h"
    by (simp split: if_splits)
  show ?thesis
  proof (cases "h ! a")
    case (Object ps0)
    with assms n a have "those (map (\<lambda>(k, v). map_option (Pair k) (reify n' h v)) ps0) = Some ps"
      by auto
    with n a Object show ?thesis
      by (rule that)
  next
    case (Array vs)
    with assms n a show ?thesis
      by auto
  qed
qed

lemma copy_reads_as_original:
  assumes "reify n h0 (VRef a) = Some (JObj ps)"
  shows "reify n (h0 @ [Object (own_properties (h0 ! a))]) (VRef (length h0)) = Some (JObj ps)"
proof -
  from assms obtain n' ps0 where n: "n = Suc n'" and a: "a < length h0" and ob: "h0 ! a = Object ps0"
    and th: "those (map (\<lambda>(k, v). map_option (Pair k) (reify n' h0 v)) ps0) = Some ps"
    by (rule reify_object)
  let ?h1 = "h0 @ [Object ps0]"
  have "reify n' ?h1 w = reify n' h0 w" if "(k, w) \<in> set ps0" for k w
  proof -
    have "w \<in> set (children (h0 ! a))"
      using that ob by force
    with assms n obtain j where "reify n' h0 w = Some j"
      using reify_ref_Some(2) by blast
    then show ?thesis
      by (simp add: reify_append)
  qed
  then have eq: "map (\<lambda>(k, v). map_option (Pair k) (reify n' ?h1 v)) ps0 =
                 map (\<lambda>(k, v). map_option (Pair k) (reify n' h0 v)) ps0"
    by (auto intro!: map_cong)
  have "reify (Suc n') ?h1 (VRef (length h0)) = Some (JObj ps)"
    using th by (simp add: eq)
  then show ?thesis
    by (simp only: n ob own_properties.simps)
qed

lemma cacheGet_on_heap_read:
  assumes "read_baseCacheKey n h k = Some base"
  shows "cacheGet_on_heap n parse cache h k contextual = cacheGet parse cache base contextual"
  using assms by (simp add: cacheGet_on_heap_def)

lemma lookup_on_heap_read:
  assumes "read_baseCacheKey n h k = Some base"
  shows "lookup_on_heap n parse cache h k sid = lookup parse cache base sid"
  unfolding lookup_on_heap_def lookup_def cacheGet_on_heap_read [OF assms] ..









text \<open>
  With the variables read from the heap, the executor does what the executor above does on
  the value that the variables have when it runs.
\<close>

lemma executor_on_heap_refines:
  assumes "reify n h0 (VRef a) = Some (JObj ps)"
    and "request_variables ctx = Some ps"
    and "executor_on_heap n parse options ctx (Some a) h0 st = (r, st', fx, h1)"
    and "hst_baseCacheKey st = None"
  shows "executor parse options ctx \<lparr>st_sessionId = hst_sessionId st, st_baseCacheKey = None\<rparr> =
           (r,
            \<lparr>st_sessionId = hst_sessionId st',
             st_baseCacheKey =
               (case hst_baseCacheKey st' of None \<Rightarrow> None | Some k \<Rightarrow> read_baseCacheKey n h1 k)\<rparr>,
            fx)"
proof -
  from assms(1) have a: "a < length h0"
    by (rule reify_object)
  have c: "copy_variables h0 (Some a) = (h0 @ [Object (own_properties (h0 ! a))], length h0)"
    using a by (simp add: copy_variables_def)
  have rd: "read_baseCacheKey n (h0 @ [Object (own_properties (h0 ! a))])
              \<lparr>hk_documentText = d, hk_operationName = on, hk_variables = length h0, hk_extra = x\<rparr> =
            Some \<lparr>documentText = d, operationName = on, variables = ps, extra = x\<rparr>" for d on x
    using copy_reads_as_original [OF assms(1)] by (simp add: read_baseCacheKey_def)
  show ?thesis
    using assms(2,3,4)
    by (auto simp: executor_on_heap_def executor_def resolve_sessionId_def make_baseCacheKey_def
        c rd lookup_on_heap_read [OF rd] Let_def
        split: sum.splits bool.splits option.splits prod.splits)
qed


end
